theory Spec2Isabelle
  imports Main
begin

section \<open>JavaScript library functions used by the form\<close>

text \<open>
  A JavaScript string is modelled as a \<^typ>\<open>string\<close>, one \<^typ>\<open>char\<close> per code unit;
  the model covers the code units 0 to 255. \<open>String.prototype.trim\<close> and \<open>parseInt\<close>
  strip the WhiteSpace and LineTerminator code points; those in the modelled range are
  TAB, LF, VT, FF, CR, SPACE and NBSP.
\<close>

definition isWhiteSpace :: "char \<Rightarrow> bool" where
  "isWhiteSpace c \<longleftrightarrow>
     c \<in> set [CHR 0x09, CHR 0x0A, CHR 0x0B, CHR 0x0C, CHR 0x0D, CHR 0x20, CHR 0xA0]"

text \<open>\<open>s.trim()\<close>: the string without its leading and trailing white space.\<close>

definition trim :: "string \<Rightarrow> string" where
  "trim s = rev (dropWhile isWhiteSpace (rev (dropWhile isWhiteSpace s)))"

text \<open>
  A JavaScript number, as far as the form needs it: an integer or the not-a-number
  sentinel. Integers are unbounded here; the code's numbers are doubles, which hold every
  integer of magnitude up to \<open>2^53\<close> exactly, so the model and the code agree on every
  priority and every priority text within that range.
\<close>

datatype number = NaN | Num int

text \<open>\<open>a !== b\<close> on numbers: \<open>NaN\<close> is unequal to every number, itself included.\<close>

fun strictNeq :: "number \<Rightarrow> number \<Rightarrow> bool" where
  "strictNeq (Num a) (Num b) = (a \<noteq> b)"
| "strictNeq _ _ = True"

definition isDigit :: "char \<Rightarrow> bool" where
  "isDigit c \<longleftrightarrow> 48 \<le> (of_char c :: nat) \<and> (of_char c :: nat) \<le> 57"

definition digitValue :: "char \<Rightarrow> nat" where
  "digitValue c = of_char c - 48"

definition digitsValue :: "string \<Rightarrow> nat" where
  "digitsValue ds = foldl (\<lambda>acc c. 10 * acc + digitValue c) 0 ds"

text \<open>
  \<open>parseInt(s, 10)\<close>: skip leading white space, read an optional sign, then the longest
  run of decimal digits; no digit gives \<open>NaN\<close>. With radix 10 no \<open>0x\<close> prefix is
  stripped. Whatever follows the digits is ignored.
\<close>

definition parseInt :: "string \<Rightarrow> number" where
  "parseInt s =
     (let S = dropWhile isWhiteSpace s;
          sign = (if S \<noteq> [] \<and> hd S = CHR ''-'' then - 1 else 1 :: int);
          S' = (if S \<noteq> [] \<and> (hd S = CHR ''+'' \<or> hd S = CHR ''-'') then tl S else S);
          Z = takeWhile isDigit S'
      in if Z = [] then NaN else Num (sign * int (digitsValue Z)))"

text \<open>Decimal digits of a natural number, as \<open>String(n)\<close> and a template literal print them.\<close>

definition digitChar :: "nat \<Rightarrow> char" where
  "digitChar d = char_of (48 + d)"

fun showNat :: "nat \<Rightarrow> string" where
  "showNat n = (if n < 10 then [digitChar n] else showNat (n div 10) @ [digitChar (n mod 10)])"

declare showNat.simps [simp del]

text \<open>\<open>String(n)\<close> for an integer \<open>n\<close> (of magnitude below \<open>10^21\<close>, where JavaScript
  prints plain decimal digits).\<close>

definition String :: "int \<Rightarrow> string" where
  "String n = (if n < 0 then CHR ''-'' # showNat (nat (- n)) else showNat (nat n))"

text \<open>
  \<open>JSON.stringify\<close> on an array of strings. Each string is quoted: the seven characters
  with a short escape get it, any other control character below \<open>0x20\<close> becomes
  \<open>\u00XX\<close> with lower-case hexadecimal digits, every other character stands for
  itself. The quoted strings are joined by commas between brackets.
\<close>

definition hexDigit :: "nat \<Rightarrow> char" where
  "hexDigit d = (if d < 10 then char_of (48 + d) else char_of (87 + d))"

definition jsonEscape :: "char \<Rightarrow> string" where
  "jsonEscape c =
     (if c = CHR 0x08 then [CHR 0x5C, CHR ''b'']
      else if c = CHR 0x09 then [CHR 0x5C, CHR ''t'']
      else if c = CHR 0x0A then [CHR 0x5C, CHR ''n'']
      else if c = CHR 0x0C then [CHR 0x5C, CHR ''f'']
      else if c = CHR 0x0D then [CHR 0x5C, CHR ''r'']
      else if c = CHR 0x22 then [CHR 0x5C, CHR 0x22]
      else if c = CHR 0x5C then [CHR 0x5C, CHR 0x5C]
      else if (of_char c :: nat) < 32 then
        [CHR 0x5C, CHR ''u'', CHR ''0'', CHR ''0'',
         hexDigit (of_char c div 16), hexDigit (of_char c mod 16)]
      else [c])"

definition quoteJSONString :: "string \<Rightarrow> string" where
  "quoteJSONString s = CHR 0x22 # concat (map jsonEscape s) @ [CHR 0x22]"

fun joinComma :: "string list \<Rightarrow> string" where
  "joinComma [] = []"
| "joinComma [x] = x"
| "joinComma (x # y # ys) = x @ CHR '','' # joinComma (y # ys)"

definition JSON_stringify :: "string list \<Rightarrow> string" where
  "JSON_stringify xs = CHR ''['' # joinComma (map quoteJSONString xs) @ [CHR '']'']"

section \<open>The data of the form\<close>

text \<open>
  Modelled from the spec: the type \<open>Feature\<close> is declared in \<open>lib/types\<close>, which is
  not among the sources. The spec gives it an opaque identifier, three strings, an
  integer priority and an ordered sequence of step strings.
\<close>

record Feature =
  feature_id :: nat
  feature_category :: string
  feature_name :: string
  feature_description :: string
  feature_priority :: int
  feature_steps :: "string list"

text \<open>\<open>interface Step { id: string; value: string }\<close>. The two fields are called
  \<open>step_id\<close> and \<open>step_value\<close> here, since \<open>id\<close> is the identity function of HOL and
  \<open>value\<close> is a keyword.\<close>

record Step =
  step_id :: string
  step_value :: string

text \<open>The argument of \<open>updateFeature.mutateAsync\<close>.\<close>

record FeatureUpdate =
  update_category :: string
  update_name :: string
  update_description :: string
  update_steps :: "string list"
  update_priority :: number

record MutationArgs =
  featureId :: nat
  update :: FeatureUpdate

text \<open>
  The state of one mounted form: the seven \<open>useState\<close> cells, the mutation calls that
  \<open>handleSubmit\<close> has started and that have not settled yet (each with the argument it
  was given), and how often each of the two callbacks of the props, \<open>onSaved\<close> and
  \<open>onClose\<close>, has been called.
\<close>

record FormState =
  category :: string
  name :: string
  description :: string
  priority :: string
  steps :: "Step list"
  error :: "string option"
  stepCounter :: nat
  inFlight :: "MutationArgs list"
  onSavedCalls :: nat
  onCloseCalls :: nat

text \<open>
  Modelled from the spec: the hook \<open>useUpdateFeature\<close> is defined in
  \<open>hooks/useProjects\<close>, which is not among the sources. By the spec its \<open>mutateAsync\<close>
  starts one call of the external mutation, which later succeeds or fails with an error,
  and its \<open>isPending\<close> is true strictly while a mutation call is in flight.
\<close>

definition isPending :: "FormState \<Rightarrow> bool" where
  "isPending s \<longleftrightarrow> inFlight s \<noteq> []"

text \<open>The template literal \<open>`${formId}-step-${i}`\<close>; \<open>formId\<close> is what \<open>useId()\<close> returned.\<close>

definition stepId :: "string \<Rightarrow> nat \<Rightarrow> string" where
  "stepId formId i = formId @ ''-step-'' @ showNat i"

text \<open>The initial value of \<open>steps\<close> (lines 24 to 28).\<close>

definition initialSteps :: "string \<Rightarrow> string list \<Rightarrow> Step list" where
  "initialSteps formId fsteps =
     (if length fsteps > 0
      then map (\<lambda>(i, step). \<lparr>step_id = stepId formId i, step_value = step\<rparr>) (enumerate 0 fsteps)
      else [\<lparr>step_id = stepId formId 0, step_value = []\<rparr>])"

text \<open>The state after mounting (lines 20 to 30); \<open>feature.steps.length || 1\<close> is 1 for
  length 0.\<close>

definition initialState :: "string \<Rightarrow> Feature \<Rightarrow> FormState" where
  "initialState formId feature =
     \<lparr>category = feature_category feature,
      name = feature_name feature,
      description = feature_description feature,
      priority = String (feature_priority feature),
      steps = initialSteps formId (feature_steps feature),
      error = None,
      stepCounter = (if length (feature_steps feature) = 0 then 1 else length (feature_steps feature)),
      inFlight = [],
      onSavedCalls = 0,
      onCloseCalls = 0\<rparr>"

section \<open>The handlers\<close>

definition handleAddStep :: "string \<Rightarrow> FormState \<Rightarrow> FormState" where
  "handleAddStep formId s =
     s\<lparr>steps := steps s @ [\<lparr>step_id = stepId formId (stepCounter s), step_value = []\<rparr>],
       stepCounter := stepCounter s + 1\<rparr>"

definition handleRemoveStep :: "string \<Rightarrow> FormState \<Rightarrow> FormState" where
  "handleRemoveStep i s = s\<lparr>steps := filter (\<lambda>step. step_id step \<noteq> i) (steps s)\<rparr>"

definition handleStepChange :: "string \<Rightarrow> string \<Rightarrow> FormState \<Rightarrow> FormState" where
  "handleStepChange i v s =
     s\<lparr>steps := map (\<lambda>step. if step_id step = i then step\<lparr>step_value := v\<rparr> else step) (steps s)\<rparr>"

text \<open>\<open>filteredSteps\<close> of \<open>handleSubmit\<close> (lines 53 to 55).\<close>

definition filteredSteps :: "FormState \<Rightarrow> string list" where
  "filteredSteps s = filter (\<lambda>v. length v > 0) (map (\<lambda>st. trim (step_value st)) (steps s))"

text \<open>
  \<open>handleSubmit\<close> is asynchronous. Up to its \<open>await\<close> it clears the error and starts the
  mutation call with the payload built from the buffer.
\<close>

definition handleSubmit :: "Feature \<Rightarrow> FormState \<Rightarrow> FormState" where
  "handleSubmit feature s =
     s\<lparr>error := None,
       inFlight := inFlight s @
         [\<lparr>featureId = feature_id feature,
           update = \<lparr>update_category = trim (category s),
                     update_name = trim (name s),
                     update_description = trim (description s),
                     update_steps = filteredSteps s,
                     update_priority = parseInt (priority s)\<rparr>\<rparr>]\<rparr>"

text \<open>
  What the awaited call can do: resolve, or reject with a thrown value, which is an
  instance of \<open>Error\<close> carrying a message or is anything else.
\<close>

datatype thrown = ErrorInstance string | OtherValue

datatype outcome = Resolved | Rejected thrown

text \<open>\<open>err instanceof Error ? err.message : 'Failed to update feature'\<close>\<close>

fun errorText :: "thrown \<Rightarrow> string" where
  "errorText (ErrorInstance message) = message"
| "errorText OtherValue = ''Failed to update feature''"

text \<open>The rest of \<open>handleSubmit\<close>, run when the oldest call in flight settles: \<open>onSaved()\<close>
  after the \<open>await\<close>, or the \<open>catch\<close> block.\<close>

fun handleSettled :: "outcome \<Rightarrow> FormState \<Rightarrow> FormState" where
  "handleSettled Resolved s = s\<lparr>inFlight := tl (inFlight s), onSavedCalls := onSavedCalls s + 1\<rparr>"
| "handleSettled (Rejected err) s = s\<lparr>inFlight := tl (inFlight s), error := Some (errorText err)\<rparr>"

section \<open>Values derived on every render\<close>

text \<open>A string is truthy when it is not empty; \<open>a && b\<close> is \<open>b\<close> when \<open>a\<close> is truthy and
  \<open>a\<close> otherwise.\<close>

definition truthy :: "string \<Rightarrow> bool" where
  "truthy v \<longleftrightarrow> v \<noteq> []"

definition andAlso :: "string \<Rightarrow> string \<Rightarrow> string" where
  "andAlso a b = (if truthy a then b else a)"

definition isValid :: "FormState \<Rightarrow> string" where
  "isValid s = andAlso (andAlso (trim (category s)) (trim (name s))) (trim (description s))"

definition currentSteps :: "FormState \<Rightarrow> string list" where
  "currentSteps s = filter truthy (map (\<lambda>st. trim (step_value st)) (steps s))"

definition hasChanges :: "Feature \<Rightarrow> FormState \<Rightarrow> bool" where
  "hasChanges feature s \<longleftrightarrow>
     trim (category s) \<noteq> feature_category feature \<or>
     trim (name s) \<noteq> feature_name feature \<or>
     trim (description s) \<noteq> feature_description feature \<or>
     strictNeq (parseInt (priority s)) (Num (feature_priority feature)) \<or>
     JSON_stringify (currentSteps s) \<noteq> JSON_stringify (feature_steps feature)"

text \<open>The \<open>disabled\<close> attribute of the submit button (line 224).\<close>

definition submitDisabled :: "Feature \<Rightarrow> FormState \<Rightarrow> bool" where
  "submitDisabled feature s \<longleftrightarrow> \<not> truthy (isValid s) \<or> \<not> hasChanges feature s \<or> isPending s"

section \<open>The form as a state machine\<close>

text \<open>
  What can happen to a mounted form: the user types into a field, uses one of the step
  controls, submits, dismisses the error banner or closes the dialog, or the mutation
  call in flight settles.
\<close>

datatype event =
    SetCategory string
  | SetName string
  | SetDescription string
  | SetPriority string
  | AddStep
  | RemoveStep string
  | StepChange string string
  | Submit
  | Settled outcome
  | DismissError
  | Close

text \<open>
  Which events the rendered form offers. A row's input and its remove button pass that
  row's id; the remove button is rendered only when \<open>steps.length > 1\<close> (line 198); a
  disabled submit button submits nothing; the banner with the dismiss button is rendered
  only when \<open>error\<close> is truthy (line 107); a call can settle only while one is in flight.
\<close>

fun enabled :: "Feature \<Rightarrow> FormState \<Rightarrow> event \<Rightarrow> bool" where
  "enabled feature s (RemoveStep i) \<longleftrightarrow> length (steps s) > 1 \<and> i \<in> set (map step_id (steps s))"
| "enabled feature s (StepChange i v) \<longleftrightarrow> i \<in> set (map step_id (steps s))"
| "enabled feature s Submit \<longleftrightarrow> \<not> submitDisabled feature s"
| "enabled feature s (Settled out) \<longleftrightarrow> isPending s"
| "enabled feature s DismissError \<longleftrightarrow> (case error s of None \<Rightarrow> False | Some m \<Rightarrow> truthy m)"
| "enabled feature s _ \<longleftrightarrow> True"

fun handle :: "string \<Rightarrow> Feature \<Rightarrow> FormState \<Rightarrow> event \<Rightarrow> FormState" where
  "handle formId feature s (SetCategory v) = s\<lparr>category := v\<rparr>"
| "handle formId feature s (SetName v) = s\<lparr>name := v\<rparr>"
| "handle formId feature s (SetDescription v) = s\<lparr>description := v\<rparr>"
| "handle formId feature s (SetPriority v) = s\<lparr>priority := v\<rparr>"
| "handle formId feature s AddStep = handleAddStep formId s"
| "handle formId feature s (RemoveStep i) = handleRemoveStep i s"
| "handle formId feature s (StepChange i v) = handleStepChange i v s"
| "handle formId feature s Submit = handleSubmit feature s"
| "handle formId feature s (Settled out) = handleSettled out s"
| "handle formId feature s DismissError = s\<lparr>error := None\<rparr>"
| "handle formId feature s Close = s\<lparr>onCloseCalls := onCloseCalls s + 1\<rparr>"

text \<open>
  One event. The handlers themselves check nothing: what keeps \<open>handleRemoveStep\<close> from
  the last row and \<open>handleSubmit\<close> from an invalid, unchanged or pending form is that
  the control is absent or disabled. An event that the form does not offer cannot
  happen, and is modelled as changing nothing.
\<close>

definition fire :: "string \<Rightarrow> Feature \<Rightarrow> FormState \<Rightarrow> event \<Rightarrow> FormState" where
  "fire formId feature s e = (if enabled feature s e then handle formId feature s e else s)"

text \<open>The states a session passes through, from the given state, under a sequence of events.\<close>

fun trace :: "string \<Rightarrow> Feature \<Rightarrow> FormState \<Rightarrow> event list \<Rightarrow> FormState list" where
  "trace formId feature s [] = [s]"
| "trace formId feature s (e # es) = s # trace formId feature (fire formId feature s e) es"

definition run :: "string \<Rightarrow> Feature \<Rightarrow> FormState \<Rightarrow> event list \<Rightarrow> FormState" where
  "run formId feature s es = foldl (fire formId feature) s es"

definition session :: "string \<Rightarrow> Feature \<Rightarrow> event list \<Rightarrow> FormState" where
  "session formId feature es = run formId feature (initialState formId feature) es"

section \<open>Concrete features and sessions\<close>

text \<open>The feature of the spec's scenario A, and two variants of it: one without steps, one
  whose only step begins with a space.\<close>

definition scenarioA :: Feature where
  "scenarioA =
     \<lparr>feature_id = 7, feature_category = ''UI'', feature_name = ''Login form'',
      feature_description = ''desc'', feature_priority = 2,
      feature_steps = [''click'', ''type'', ''submit'']\<rparr>"

definition scenarioEmpty :: Feature where
  "scenarioEmpty = scenarioA\<lparr>feature_steps := []\<rparr>"

definition scenarioPadded :: Feature where
  "scenarioPadded = scenarioA\<lparr>feature_steps := ['' click'']\<rparr>"

text \<open>Scenario A after the user has edited the second step, and after the submit that
  follows.\<close>

definition editedA :: FormState where
  "editedA = session '':r0:'' scenarioA [StepChange '':r0:-step-1'' ''type creds'']"

definition submittedA :: FormState where
  "submittedA = fire '':r0:'' scenarioA editedA Submit"

section \<open>The invariant of the step list\<close>

text \<open>The invariant of the step list: the ids are pairwise distinct, each was minted from a
  counter value below the current one, and there is at least one row.\<close>

definition stepsInv :: "string \<Rightarrow> FormState \<Rightarrow> bool" where
  "stepsInv formId s \<longleftrightarrow>
     distinct (map step_id (steps s)) \<and>
     set (map step_id (steps s)) \<subseteq> stepId formId ` {..<stepCounter s} \<and>
     1 \<le> length (steps s)"

section \<open>Decimal digits\<close>

lemma digitValue_digitChar: "d < 10 \<Longrightarrow> digitValue (digitChar d) = d"
  by (simp add: digitValue_def digitChar_def)

lemma isDigit_digitChar: "d < 10 \<Longrightarrow> isDigit (digitChar d)"
  by (simp add: isDigit_def digitChar_def)

lemma digitsValue_snoc: "digitsValue (ds @ [c]) = 10 * digitsValue ds + digitValue c"
  by (simp add: digitsValue_def)

lemma digitsValue_showNat: "digitsValue (showNat n) = n"
proof (induction n rule: showNat.induct)
  case (1 n)
  show ?case
  proof (cases "n < 10")
    case True
    then show ?thesis
      by (subst showNat.simps) (simp add: digitsValue_def digitValue_digitChar)
  next
    case False
    with 1 have "digitsValue (showNat (n div 10)) = n div 10" by simp
    with False show ?thesis
      by (subst showNat.simps) (simp add: digitsValue_snoc digitValue_digitChar)
  qed
qed

lemma showNat_inj: "showNat m = showNat n \<Longrightarrow> m = n"
  by (metis digitsValue_showNat)

lemma stepId_inj: "stepId formId m = stepId formId n \<Longrightarrow> m = n"
  by (simp add: stepId_def showNat_inj)

lemma showNat_digits: "list_all isDigit (showNat n)"
proof (induction n rule: showNat.induct)
  case (1 n)
  show ?case
  proof (cases "n < 10")
    case True
    then show ?thesis by (subst showNat.simps) (simp add: isDigit_digitChar)
  next
    case False
    with 1 have "list_all isDigit (showNat (n div 10))" by simp
    with False show ?thesis by (subst showNat.simps) (simp add: isDigit_digitChar)
  qed
qed

lemma showNat_nonempty: "showNat n \<noteq> []"
  by (subst showNat.simps) simp

lemma isDigit_not_ws: "isDigit c \<Longrightarrow> \<not> isWhiteSpace c"
  by (auto simp: isDigit_def isWhiteSpace_def)

lemma isDigit_not_sign: "isDigit c \<Longrightarrow> c \<noteq> CHR ''-'' \<and> c \<noteq> CHR ''+''"
  by (auto simp: isDigit_def)

lemma parseInt_digits:
  assumes "ds \<noteq> []" "list_all isDigit ds"
  shows "parseInt ds = Num (int (digitsValue ds))"
    and "parseInt (CHR ''-'' # ds) = Num (- int (digitsValue ds))"
proof -
  obtain c r where ds: "ds = c # r" using assms(1) by (cases ds) auto
  with assms(2) have c: "isDigit c" by simp
  have tw: "takeWhile isDigit ds = ds" using assms(2) by (simp add: list_all_iff)
  show "parseInt ds = Num (int (digitsValue ds))"
    using isDigit_not_ws[OF c] isDigit_not_sign[OF c] assms(1) tw[unfolded ds]
    by (simp add: parseInt_def ds Let_def del: takeWhile_eq_all_conv)
  have "\<not> isWhiteSpace CHR ''-''" by (simp add: isWhiteSpace_def)
  then show "parseInt (CHR ''-'' # ds) = Num (- int (digitsValue ds))"
    using assms(1) by (simp add: parseInt_def Let_def tw)
qed

lemma parseInt_String: "parseInt (String n) = Num n"
  using parseInt_digits[OF showNat_nonempty showNat_digits]
  by (simp add: String_def digitsValue_showNat)

section \<open>The serialisation of a string array is injective\<close>

lemma hexDigit_code: "d < 16 \<Longrightarrow> (of_char (hexDigit d) :: nat) = (if d < 10 then 48 + d else 87 + d)"
  by (simp add: hexDigit_def)

lemma hexDigit_inj: "a < 16 \<Longrightarrow> b < 16 \<Longrightarrow> hexDigit a = hexDigit b \<Longrightarrow> a = b"
proof -
  assume a: "a < 16" and b: "b < 16" and e: "hexDigit a = hexDigit b"
  from e have "(of_char (hexDigit a) :: nat) = of_char (hexDigit b)" by simp
  with a b show "a = b" by (simp add: hexDigit_code split: if_splits)
qed

lemma control_char_eq:
  assumes "(of_char c :: nat) < 32" "(of_char d :: nat) < 32"
    and "hexDigit (of_char c div 16) = hexDigit (of_char d div 16)"
    and "hexDigit (of_char c mod 16) = hexDigit (of_char d mod 16)"
  shows "c = d"
proof -
  have "(of_char c :: nat) div 16 = of_char d div 16"
    using assms(1,2) by (intro hexDigit_inj[OF _ _ assms(3)]) auto
  moreover have "(of_char c :: nat) mod 16 = of_char d mod 16"
    by (intro hexDigit_inj[OF _ _ assms(4)]) auto
  ultimately have "(of_char c :: nat) = of_char d"
    by (metis div_mult_mod_eq)
  then show ?thesis by simp
qed

lemma jsonEscape_prefix_free:
  "jsonEscape c @ r = jsonEscape d @ r' \<Longrightarrow> c = d \<and> r = r'"
  unfolding jsonEscape_def
  by (auto split: if_splits dest: control_char_eq)

lemma jsonEscape_not_quote: "jsonEscape c @ r \<noteq> CHR 0x22 # r'"
  unfolding jsonEscape_def by (auto split: if_splits)


lemma escaped_body_inj:
  "concat (map jsonEscape s) @ CHR 0x22 # r = concat (map jsonEscape t) @ CHR 0x22 # r'
   \<Longrightarrow> s = t \<and> r = r'"
proof (induction s arbitrary: t)
  case Nil
  then show ?case
    by (cases t) (auto dest: jsonEscape_not_quote[THEN notE, OF sym])
next
  case (Cons c s)
  show ?case
  proof (cases t)
    case Nil
    with Cons.prems show ?thesis
      using jsonEscape_not_quote[of c "concat (map jsonEscape s) @ CHR 0x22 # r" r'] by simp
  next
    case (Cons d t')
    with Cons.prems have
      "jsonEscape c @ (concat (map jsonEscape s) @ CHR 0x22 # r) =
       jsonEscape d @ (concat (map jsonEscape t') @ CHR 0x22 # r')" by simp
    then have "c = d" and "concat (map jsonEscape s) @ CHR 0x22 # r =
       concat (map jsonEscape t') @ CHR 0x22 # r'"
      using jsonEscape_prefix_free by blast+
    with Cons.IH[of t'] Cons show ?thesis by simp
  qed
qed

lemma quoteJSONString_prefix_free:
  "quoteJSONString s @ r = quoteJSONString t @ r' \<Longrightarrow> s = t \<and> r = r'"
  using escaped_body_inj[of s r t r'] by (simp add: quoteJSONString_def)

lemma quoteJSONString_hd: "quoteJSONString s @ r = c # r' \<Longrightarrow> c = CHR 0x22"
  by (simp add: quoteJSONString_def)

lemma Cons_eq_imp_tl_eq: "x # xs = y # ys \<Longrightarrow> xs = ys"
  by simp

lemma joinComma_Cons:
  "joinComma (x # xs) = x @ (if xs = [] then [] else CHR '','' # joinComma xs)"
  by (cases xs) simp_all

lemma joined_inj:
  "joinComma (map quoteJSONString xs) @ [CHR '']''] = joinComma (map quoteJSONString ys) @ [CHR '']'']
   \<Longrightarrow> xs = ys"
proof (induction xs arbitrary: ys)
  case Nil
  then show ?case
  proof (cases ys)
    case (Cons y ys')
    with Nil have "quoteJSONString y @ ((if ys' = [] then [] else CHR '','' # joinComma (map quoteJSONString ys')) @ [CHR '']'']) = CHR '']'' # []"
      by (simp add: joinComma_Cons)
    from quoteJSONString_hd[OF this] show ?thesis by simp
  qed simp
next
  case (Cons x xs)
  show ?case
  proof (cases ys)
    case Nil
    with Cons.prems have "quoteJSONString x @ ((if xs = [] then [] else CHR '','' # joinComma (map quoteJSONString xs)) @ [CHR '']'']) = CHR '']'' # []"
      by (simp add: joinComma_Cons)
    from quoteJSONString_hd[OF this] show ?thesis by simp
  next
    case (Cons y ys')
    with Cons.prems have
      "quoteJSONString x @ ((if xs = [] then [] else CHR '','' # joinComma (map quoteJSONString xs)) @ [CHR '']'']) =
       quoteJSONString y @ ((if ys' = [] then [] else CHR '','' # joinComma (map quoteJSONString ys')) @ [CHR '']''])"
      by (simp add: joinComma_Cons)
    from quoteJSONString_prefix_free[OF this]
    have xy: "x = y" and rest: "(if xs = [] then [] else CHR '','' # joinComma (map quoteJSONString xs)) @ [CHR '']''] =
       (if ys' = [] then [] else CHR '','' # joinComma (map quoteJSONString ys')) @ [CHR '']'']"
      by blast+
    have "xs = ys'"
    proof (cases "xs = []")
      case True
      with rest show ?thesis by (auto split: if_splits)
    next
      case False
      with rest have ne: "ys' \<noteq> []" by (auto split: if_splits)
      with False rest have "joinComma (map quoteJSONString xs) @ [CHR '']''] = joinComma (map quoteJSONString ys') @ [CHR '']'']"
        by simp
      then show ?thesis by (rule Cons.IH)
    qed
    with xy Cons show ?thesis by simp
  qed
qed

lemma JSON_stringify_inj: "JSON_stringify xs = JSON_stringify ys \<longleftrightarrow> xs = ys"
proof
  assume "JSON_stringify xs = JSON_stringify ys"
  then have "joinComma (map quoteJSONString xs) @ [CHR '']''] =
             joinComma (map quoteJSONString ys) @ [CHR '']'']"
    unfolding JSON_stringify_def by (rule Cons_eq_imp_tl_eq)
  then show "xs = ys" by (rule joined_inj)
qed simp

section \<open>Trimming and the initial step list\<close>

lemma dropWhile_all_Nil:
  assumes "\<forall>x \<in> set (dropWhile P v). P x"
  shows "dropWhile P v = []"
proof (rule ccontr)
  assume ne: "dropWhile P v \<noteq> []"
  then have "\<not> P (hd (dropWhile P v))" by (rule hd_dropWhile)
  moreover from ne have "hd (dropWhile P v) \<in> set (dropWhile P v)" by (rule hd_in_set)
  ultimately show False using assms by blast
qed

lemma trim_Nil_iff: "trim v = [] \<longleftrightarrow> list_all isWhiteSpace v"
proof
  assume "trim v = []"
  then have "dropWhile isWhiteSpace (rev (dropWhile isWhiteSpace v)) = []"
    by (simp only: trim_def rev_is_Nil_conv)
  then have "\<forall>x \<in> set (rev (dropWhile isWhiteSpace v)). isWhiteSpace x"
    by (simp only: dropWhile_eq_Nil_conv)
  then have "\<forall>x \<in> set (dropWhile isWhiteSpace v). isWhiteSpace x" by (simp only: set_rev)
  then have "dropWhile isWhiteSpace v = []" by (rule dropWhile_all_Nil)
  then show "list_all isWhiteSpace v" by (simp only: dropWhile_eq_Nil_conv list_all_iff)
next
  assume "list_all isWhiteSpace v"
  then have "dropWhile isWhiteSpace v = []" by (simp only: dropWhile_eq_Nil_conv list_all_iff)
  then show "trim v = []" by (simp only: trim_def rev.simps dropWhile.simps)
qed

lemma truthy_andAlso: "truthy (andAlso a b) \<longleftrightarrow> truthy a \<and> truthy b"
  by (simp add: andAlso_def)

lemma filteredSteps_eq_currentSteps: "filteredSteps s = currentSteps s"
  by (simp add: filteredSteps_def currentSteps_def truthy_def[abs_def])

lemma normalized_fixpoint:
  "filter truthy (map trim xs) = xs \<longleftrightarrow> (\<forall>v \<in> set xs. v \<noteq> [] \<and> trim v = v)"
proof
  assume eq: "filter truthy (map trim xs) = xs"
  then have "length (filter truthy (map trim xs)) = length (map trim xs)" by simp
  then have all: "\<forall>v \<in> set (map trim xs). truthy v"
    by (metis length_filter_less less_irrefl)
  then have "filter truthy (map trim xs) = map trim xs" by (simp add: filter_id_conv)
  with eq have "map trim xs = map (\<lambda>v. v) xs" by simp
  then have "\<forall>v \<in> set xs. trim v = v" by (simp only: map_eq_conv)
  with all show "\<forall>v \<in> set xs. v \<noteq> [] \<and> trim v = v" by (auto simp: truthy_def)
next
  assume a: "\<forall>v \<in> set xs. v \<noteq> [] \<and> trim v = v"
  then have "map trim xs = xs" by (simp add: map_idI)
  with a show "filter truthy (map trim xs) = xs" by (simp add: filter_id_conv truthy_def)
qed

lemma map_fst_enumerate_fun:
  "map (\<lambda>x. f (fst x)) (enumerate n xs) = map f [n..<n + length xs]"
proof -
  have "map (\<lambda>x. f (fst x)) (enumerate n xs) = map f (map fst (enumerate n xs))"
    by (simp only: map_map comp_def)
  then show ?thesis by (simp only: map_fst_enumerate)
qed

lemma map_snd_enumerate_fun:
  "map (\<lambda>x. g (snd x)) (enumerate n xs) = map g xs"
proof -
  have "map (\<lambda>x. g (snd x)) (enumerate n xs) = map g (map snd (enumerate n xs))"
    by (simp only: map_map comp_def)
  then show ?thesis by (simp only: map_snd_enumerate)
qed

lemma ids_initialSteps:
  "map step_id (initialSteps formId xs) =
     map (stepId formId) [0..<(if xs = [] then 1 else length xs)]"
  using map_fst_enumerate_fun[of "stepId formId" 0 xs]
  by (simp add: initialSteps_def comp_def case_prod_unfold)

lemma values_initialSteps:
  "map step_value (initialSteps formId xs) = (if xs = [] then [[]] else xs)"
  using map_snd_enumerate_fun[of "\<lambda>v. v" 0 xs]
  by (simp add: initialSteps_def comp_def case_prod_unfold)

lemma currentSteps_map:
  "currentSteps s = filter truthy (map trim (map step_value (steps s)))"
  by (simp add: currentSteps_def comp_def)

lemma steps_initialState: "steps (initialState formId feature) = initialSteps formId (feature_steps feature)"
  by (simp add: initialState_def)

lemma trim_Nil: "trim [] = []"
  by (simp add: trim_def)

lemma currentSteps_initialState:
  "currentSteps (initialState formId feature) = filter truthy (map trim (feature_steps feature))"
  by (simp add: currentSteps_map steps_initialState values_initialSteps truthy_def trim_Nil)

lemma showNat_small: "showNat 0 = ''0''" "showNat 1 = ''1''" "showNat 2 = ''2''" "showNat 3 = ''3''"
  by code_simp+

section \<open>Validity\<close>

text \<open>
  Claim C5. For every buffer state, \<open>isValid\<close> is truthy if and only if the trimmed
  category, the trimmed name and the trimmed description are all non-empty. Equivalently
  it is falsy exactly when one of the three consists of white space only (the empty
  string included), whatever the other two hold. It does not depend on the priority text
  or on the step entries.
\<close>

theorem isValid_iff:
  "(truthy (isValid s) \<longleftrightarrow>
      trim (category s) \<noteq> [] \<and> trim (name s) \<noteq> [] \<and> trim (description s) \<noteq> []) \<and>
   (truthy (isValid s) \<longleftrightarrow>
      \<not> list_all isWhiteSpace (category s) \<and> \<not> list_all isWhiteSpace (name s) \<and>
      \<not> list_all isWhiteSpace (description s)) \<and>
   isValid (s\<lparr>priority := p, steps := st\<rparr>) = isValid s"
  by (simp add: isValid_def truthy_andAlso trim_Nil_iff[symmetric]) (simp add: truthy_def)

theorem isValid_iff_witness:
  "truthy (isValid (initialState '':r0:'' scenarioA)) \<and>
   \<not> truthy (isValid ((initialState '':r0:'' scenarioA)\<lparr>name := ''  ''\<rparr>)) \<and>
   list_all isWhiteSpace (name ((initialState '':r0:'' scenarioA)\<lparr>name := ''  ''\<rparr>))"
  using isValid_iff[of "initialState '':r0:'' scenarioA"]
    isValid_iff[of "(initialState '':r0:'' scenarioA)\<lparr>name := ''  ''\<rparr>"]
  by (simp add: initialState_def scenarioA_def trim_def isWhiteSpace_def)

section \<open>Initialising and normalising the step list\<close>

text \<open>
  Claim C9. For a feature without steps the initial step list is exactly one entry, whose
  value is the empty string, and normalising that untouched list (as \<open>handleSubmit\<close>
  does, and as the change check does) gives the empty sequence.
\<close>

theorem initialize_empty:
  "feature_steps feature = [] \<Longrightarrow>
     steps (initialState formId feature) = [\<lparr>step_id = stepId formId 0, step_value = []\<rparr>] \<and>
     filteredSteps (initialState formId feature) = [] \<and>
     currentSteps (initialState formId feature) = []"
  by (simp add: filteredSteps_eq_currentSteps currentSteps_initialState)
     (simp add: initialState_def initialSteps_def)

theorem initialize_empty_witness:
  "feature_steps scenarioEmpty = [] \<and>
   steps (initialState '':r0:'' scenarioEmpty) = [\<lparr>step_id = '':r0:-step-0'', step_value = []\<rparr>] \<and>
   filteredSteps (initialState '':r0:'' scenarioEmpty) = []"
  using initialize_empty[of scenarioEmpty "'':r0:''"]
  by (simp add: scenarioEmpty_def scenarioA_def stepId_def showNat_small)

text \<open>
  Claim C4, as stated, fails: a step that is not blank but begins with a space comes
  back trimmed. The feature's only step is \<open>'' click''\<close>; initialising and normalising
  gives \<open>''click''\<close>.
\<close>

theorem roundtrip_fails_on_padded_step:
  "feature_steps scenarioPadded = ['' click''] \<and>
   trim '' click'' \<noteq> [] \<and>
   filteredSteps (initialState '':r0:'' scenarioPadded) = [''click''] \<and>
   filteredSteps (initialState '':r0:'' scenarioPadded) \<noteq> feature_steps scenarioPadded"
  by (simp add: scenarioPadded_def scenarioA_def filteredSteps_eq_currentSteps
      currentSteps_initialState truthy_def trim_def isWhiteSpace_def)

text \<open>
  Claim C4, amended. Initialising and then normalising with no edit in between returns
  the input sequence exactly if and only if every entry is non-empty and equal to its
  own trimmed form, that is, has no leading or trailing white space.
\<close>

theorem roundtrip_iff_canonical:
  "filteredSteps (initialState formId feature) = feature_steps feature \<longleftrightarrow>
     (\<forall>v \<in> set (feature_steps feature). v \<noteq> [] \<and> trim v = v)"
  by (simp only: filteredSteps_eq_currentSteps currentSteps_initialState normalized_fixpoint)

theorem roundtrip_iff_canonical_witness:
  "filteredSteps (initialState '':r0:'' scenarioA) = feature_steps scenarioA \<and>
   list_all (\<lambda>v. v \<noteq> [] \<and> trim v = v) (feature_steps scenarioA)"
  using roundtrip_iff_canonical[of "'':r0:''" scenarioA]
  by (simp add: scenarioA_def trim_def isWhiteSpace_def)

section \<open>Change detection\<close>

lemma strictNeq_Num: "strictNeq x (Num n) \<longleftrightarrow> x \<noteq> Num n"
  by (cases x) simp_all

lemma currentSteps_alt:
  "currentSteps s = filter (\<lambda>v. v \<noteq> []) (map (\<lambda>st. trim (step_value st)) (steps s))"
  by (simp add: currentSteps_def truthy_def[abs_def])

lemma hasChanges_alt:
  "hasChanges feature s \<longleftrightarrow>
     trim (category s) \<noteq> feature_category feature \<or>
     trim (name s) \<noteq> feature_name feature \<or>
     trim (description s) \<noteq> feature_description feature \<or>
     parseInt (priority s) \<noteq> Num (feature_priority feature) \<or>
     currentSteps s \<noteq> feature_steps feature"
  by (simp only: hasChanges_def strictNeq_Num JSON_stringify_inj)

lemma initialState_fields:
  "category (initialState formId feature) = feature_category feature"
  "name (initialState formId feature) = feature_name feature"
  "description (initialState formId feature) = feature_description feature"
  "priority (initialState formId feature) = String (feature_priority feature)"
  by (simp_all add: initialState_def)

text \<open>
  Claim C1. For every buffer state and every original feature, \<open>hasChanges\<close> holds if
  and only if at least one of five comparisons differs: the trimmed category, name or
  description against the original one; the base-10 integer parse of the priority text
  against the original priority; the normalised step values against the original steps.
  An unparsable priority text parses to \<open>NaN\<close>, which differs from every integer, so it
  forces \<open>hasChanges\<close>. The comparison of the two serialised arrays is the ordered,
  element-wise, length-sensitive comparison of the two sequences of strings.
\<close>

theorem hasChanges_iff:
  "(hasChanges feature s \<longleftrightarrow>
     trim (category s) \<noteq> feature_category feature \<or>
     trim (name s) \<noteq> feature_name feature \<or>
     trim (description s) \<noteq> feature_description feature \<or>
     parseInt (priority s) \<noteq> Num (feature_priority feature) \<or>
     filter (\<lambda>v. v \<noteq> []) (map (\<lambda>st. trim (step_value st)) (steps s)) \<noteq> feature_steps feature) \<and>
   (parseInt (priority s) = NaN \<longrightarrow> hasChanges feature s) \<and>
   (JSON_stringify (currentSteps s) \<noteq> JSON_stringify (feature_steps feature) \<longleftrightarrow>
      length (currentSteps s) \<noteq> length (feature_steps feature) \<or>
      (\<exists>k < length (currentSteps s). currentSteps s ! k \<noteq> feature_steps feature ! k))"
proof (intro conjI)
  show "hasChanges feature s \<longleftrightarrow>
     trim (category s) \<noteq> feature_category feature \<or>
     trim (name s) \<noteq> feature_name feature \<or>
     trim (description s) \<noteq> feature_description feature \<or>
     parseInt (priority s) \<noteq> Num (feature_priority feature) \<or>
     filter (\<lambda>v. v \<noteq> []) (map (\<lambda>st. trim (step_value st)) (steps s)) \<noteq> feature_steps feature"
    by (simp only: hasChanges_alt currentSteps_alt)
  show "parseInt (priority s) = NaN \<longrightarrow> hasChanges feature s"
    by (simp add: hasChanges_alt)
  show "JSON_stringify (currentSteps s) \<noteq> JSON_stringify (feature_steps feature) \<longleftrightarrow>
      length (currentSteps s) \<noteq> length (feature_steps feature) \<or>
      (\<exists>k < length (currentSteps s). currentSteps s ! k \<noteq> feature_steps feature ! k)"
    unfolding JSON_stringify_inj
    using list_eq_iff_nth_eq[of "currentSteps s" "feature_steps feature"] by blast
qed

theorem hasChanges_iff_witness:
  "parseInt ''abc'' = NaN \<and>
   hasChanges scenarioA ((initialState '':r0:'' scenarioA)\<lparr>priority := ''abc''\<rparr>) \<and>
   \<not> hasChanges scenarioA (initialState '':r0:'' scenarioA)"
proof -
  have nan: "parseInt ''abc'' = NaN"
    by (simp add: parseInt_def isWhiteSpace_def isDigit_def)
  have "hasChanges scenarioA ((initialState '':r0:'' scenarioA)\<lparr>priority := ''abc''\<rparr>)"
    using hasChanges_iff[of scenarioA "(initialState '':r0:'' scenarioA)\<lparr>priority := ''abc''\<rparr>"] nan
    by simp
  moreover have "\<not> hasChanges scenarioA (initialState '':r0:'' scenarioA)"
    by (simp add: hasChanges_alt initialState_fields parseInt_String currentSteps_initialState)
       (simp add: scenarioA_def trim_def isWhiteSpace_def truthy_def)
  ultimately show ?thesis using nan by simp
qed

text \<open>
  Claim C10. Right after mounting, before any edit, \<open>hasChanges\<close> is false if and only if
  the original feature is in canonical form: category, name and description each equal
  their trimmed form, the priority printed and parsed again gives the original priority,
  and the original steps equal their own normalisation, that is, every step is non-empty
  and equal to its trimmed form. So an original with an empty, blank or untrimmed step,
  or an untrimmed scalar field, makes the form dirty with no user input. (In this
  model of the numbers the priority condition holds for every integer priority, by
  \<open>parseInt_String\<close>.)
\<close>

theorem initial_hasChanges_iff:
  "(\<not> hasChanges feature (initialState formId feature) \<longleftrightarrow>
      trim (feature_category feature) = feature_category feature \<and>
      trim (feature_name feature) = feature_name feature \<and>
      trim (feature_description feature) = feature_description feature \<and>
      parseInt (String (feature_priority feature)) = Num (feature_priority feature) \<and>
      filter (\<lambda>v. v \<noteq> []) (map trim (feature_steps feature)) = feature_steps feature) \<and>
   (\<not> hasChanges feature (initialState formId feature) \<longleftrightarrow>
      trim (feature_category feature) = feature_category feature \<and>
      trim (feature_name feature) = feature_name feature \<and>
      trim (feature_description feature) = feature_description feature \<and>
      parseInt (String (feature_priority feature)) = Num (feature_priority feature) \<and>
      (\<forall>v \<in> set (feature_steps feature). v \<noteq> [] \<and> trim v = v))"
proof -
  have a: "\<not> hasChanges feature (initialState formId feature) \<longleftrightarrow>
      trim (feature_category feature) = feature_category feature \<and>
      trim (feature_name feature) = feature_name feature \<and>
      trim (feature_description feature) = feature_description feature \<and>
      parseInt (String (feature_priority feature)) = Num (feature_priority feature) \<and>
      filter truthy (map trim (feature_steps feature)) = feature_steps feature"
    by (auto simp add: hasChanges_alt initialState_fields currentSteps_initialState)
  have b: "filter (\<lambda>v. v \<noteq> []) (map trim (feature_steps feature)) =
           filter truthy (map trim (feature_steps feature))"
    by (simp add: truthy_def[abs_def])
  show ?thesis
    unfolding b using a normalized_fixpoint[of "feature_steps feature"] by blast
qed

theorem initial_hasChanges_iff_witness:
  "\<not> hasChanges scenarioA (initialState '':r0:'' scenarioA) \<and>
   list_all (\<lambda>v. v \<noteq> [] \<and> trim v = v) (feature_steps scenarioA) \<and>
   hasChanges scenarioPadded (initialState '':r0:'' scenarioPadded) \<and>
   \<not> list_all (\<lambda>v. v \<noteq> [] \<and> trim v = v) (feature_steps scenarioPadded)"
  using initial_hasChanges_iff[of scenarioA "'':r0:''"]
    initial_hasChanges_iff[of scenarioPadded "'':r0:''"]
  by (simp add: parseInt_String)
     (simp add: scenarioA_def scenarioPadded_def trim_def isWhiteSpace_def)

section \<open>The step handlers\<close>

text \<open>
  Claim C8. \<open>handleStepChange\<close> leaves the ids, their order and the length of the step
  list as they are; the entry at each position keeps its value unless its id is the given
  one, in which case only its value is replaced; nothing else in the state changes. With
  an id that no entry has, \<open>handleStepChange\<close> and \<open>handleRemoveStep\<close> both return the
  state unchanged.
\<close>

theorem stepChange_frame:
  "map step_id (steps (handleStepChange i v s)) = map step_id (steps s) \<and>
   length (steps (handleStepChange i v s)) = length (steps s) \<and>
   (\<forall>k < length (steps s).
      steps (handleStepChange i v s) ! k =
        (if step_id (steps s ! k) = i then (steps s ! k)\<lparr>step_value := v\<rparr> else steps s ! k)) \<and>
   handleStepChange i v s = s\<lparr>steps := steps (handleStepChange i v s)\<rparr> \<and>
   (i \<notin> set (map step_id (steps s)) \<longrightarrow>
      handleStepChange i v s = s \<and> handleRemoveStep i s = s)"
proof (intro conjI impI)
  show "map step_id (steps (handleStepChange i v s)) = map step_id (steps s)"
    by (simp add: handleStepChange_def comp_def)
  show "length (steps (handleStepChange i v s)) = length (steps s)"
    by (simp add: handleStepChange_def)
  show "\<forall>k < length (steps s).
      steps (handleStepChange i v s) ! k =
        (if step_id (steps s ! k) = i then (steps s ! k)\<lparr>step_value := v\<rparr> else steps s ! k)"
    by (simp add: handleStepChange_def)
  show "handleStepChange i v s = s\<lparr>steps := steps (handleStepChange i v s)\<rparr>"
    by (simp add: handleStepChange_def)
next
  assume no: "i \<notin> set (map step_id (steps s))"
  then have "map (\<lambda>step. if step_id step = i then step\<lparr>step_value := v\<rparr> else step) (steps s) = steps s"
    by (intro map_idI) auto
  then show "handleStepChange i v s = s" by (simp add: handleStepChange_def)
  from no have "filter (\<lambda>step. step_id step \<noteq> i) (steps s) = steps s"
    by (auto simp: filter_id_conv)
  then show "handleRemoveStep i s = s" by (simp add: handleRemoveStep_def)
qed

lemma showNat_Suc: "showNat (Suc 0) = ''1''" "showNat (Suc (Suc 0)) = ''2''"
  using showNat_small(2,3) by (simp_all add: numeral_2_eq_2)

lemma steps_scenarioA:
  "steps (initialState '':r0:'' scenarioA) =
     [\<lparr>step_id = '':r0:-step-0'', step_value = ''click''\<rparr>,
      \<lparr>step_id = '':r0:-step-1'', step_value = ''type''\<rparr>,
      \<lparr>step_id = '':r0:-step-2'', step_value = ''submit''\<rparr>]"
  by (simp add: steps_initialState initialSteps_def scenarioA_def stepId_def showNat_small showNat_Suc)

theorem stepChange_frame_witness:
  "map step_value (steps (handleStepChange '':r0:-step-1'' ''type creds'' (initialState '':r0:'' scenarioA)))
     = [''click'', ''type creds'', ''submit''] \<and>
   ''nope'' \<notin> set (map step_id (steps (initialState '':r0:'' scenarioA))) \<and>
   handleStepChange ''nope'' ''x'' (initialState '':r0:'' scenarioA) = initialState '':r0:'' scenarioA \<and>
   handleRemoveStep ''nope'' (initialState '':r0:'' scenarioA) = initialState '':r0:'' scenarioA"
proof -
  have no: "''nope'' \<notin> set (map step_id (steps (initialState '':r0:'' scenarioA)))"
    by (simp add: steps_scenarioA)
  have changed: "map step_value (steps (handleStepChange '':r0:-step-1'' ''type creds'' (initialState '':r0:'' scenarioA)))
     = [''click'', ''type creds'', ''submit'']"
    by (simp add: handleStepChange_def steps_scenarioA)
  show ?thesis
    using stepChange_frame[of "''nope''" "''x''" "initialState '':r0:'' scenarioA"] no changed
    by blast
qed

section \<open>Invariants of a session\<close>

lemma stepsInv_initialState: "stepsInv formId (initialState formId feature)"
proof -
  have "inj (stepId formId)" by (rule injI) (rule stepId_inj)
  then have "distinct (map (stepId formId) [0..<n])" for n
    by (simp add: distinct_map inj_on_def inj_def)
  moreover have "1 \<le> length (steps (initialState formId feature))"
    by (cases "feature_steps feature") (simp_all add: steps_initialState initialSteps_def)
  moreover have "stepCounter (initialState formId feature) =
      (if feature_steps feature = [] then 1 else length (feature_steps feature))"
    by (simp add: initialState_def)
  ultimately show ?thesis
    unfolding stepsInv_def steps_initialState ids_initialSteps
    by (auto simp: lessThan_atLeast0)
qed

lemma stepId_fresh:
  assumes "set ids \<subseteq> stepId formId ` {..<n}" and "n \<le> m"
  shows "stepId formId m \<notin> set ids"
proof
  assume "stepId formId m \<in> set ids"
  with assms(1) obtain k where "k < n" "stepId formId m = stepId formId k" by auto
  then have "m = k" using stepId_inj by blast
  with \<open>k < n\<close> assms(2) show False by simp
qed

lemma filter_distinct_key:
  "distinct (map f xs) \<Longrightarrow> length xs \<le> Suc (length (filter (\<lambda>x. f x \<noteq> i) xs))"
proof (induction xs)
  case Nil
  then show ?case by simp
next
  case (Cons x xs)
  show ?case
  proof (cases "f x = i")
    case True
    with Cons.prems have "i \<notin> f ` set xs" by simp
    then have "\<forall>y \<in> set xs. f y \<noteq> i" by blast
    then have "filter (\<lambda>x. f x \<noteq> i) xs = xs" by (simp add: filter_id_conv)
    with True show ?thesis by simp
  next
    case False
    with Cons show ?thesis by simp
  qed
qed

lemma stepsInv_handleAddStep: "stepsInv formId s \<Longrightarrow> stepsInv formId (handleAddStep formId s)"
proof -
  assume inv: "stepsInv formId s"
  then have fresh: "stepId formId (stepCounter s) \<notin> set (map step_id (steps s))"
    by (intro stepId_fresh[where n = "stepCounter s"]) (simp_all add: stepsInv_def)
  have "stepId formId ` {..<stepCounter s} \<subseteq> stepId formId ` {..<Suc (stepCounter s)}"
    by (intro image_mono) auto
  with inv fresh show ?thesis
    by (auto simp: stepsInv_def handleAddStep_def)
qed

lemma stepsInv_handleRemoveStep:
  assumes "stepsInv formId s" "1 < length (steps s)"
  shows "stepsInv formId (handleRemoveStep i s)"
proof -
  from assms(1) have d: "distinct (map step_id (steps s))" by (simp add: stepsInv_def)
  from filter_distinct_key[OF d, of i] assms(2)
  have "1 \<le> length (filter (\<lambda>step. step_id step \<noteq> i) (steps s))" by simp
  moreover from d have "distinct (map step_id (filter (\<lambda>step. step_id step \<noteq> i) (steps s)))"
    by (rule distinct_map_filter)
  ultimately show ?thesis
    using assms(1) by (auto simp: stepsInv_def handleRemoveStep_def)
qed

lemma stepsInv_handleStepChange: "stepsInv formId s \<Longrightarrow> stepsInv formId (handleStepChange i v s)"
proof -
  have "map step_id (steps (handleStepChange i v s)) = map step_id (steps s)"
    by (simp add: handleStepChange_def comp_def)
  moreover have "length (steps (handleStepChange i v s)) = length (steps s)"
    by (simp add: handleStepChange_def)
  moreover have "stepCounter (handleStepChange i v s) = stepCounter s"
    by (simp add: handleStepChange_def)
  moreover assume "stepsInv formId s"
  ultimately show ?thesis by (simp add: stepsInv_def)
qed

lemma stepsInv_cong:
  "steps t = steps s \<Longrightarrow> stepCounter t = stepCounter s \<Longrightarrow> stepsInv formId s \<Longrightarrow> stepsInv formId t"
  by (simp add: stepsInv_def)

lemma stepsInv_fire: "stepsInv formId s \<Longrightarrow> stepsInv formId (fire formId feature s e)"
proof (cases e)
  case AddStep
  assume "stepsInv formId s"
  with AddStep show ?thesis by (simp add: fire_def stepsInv_handleAddStep)
next
  case (RemoveStep i)
  assume "stepsInv formId s"
  with RemoveStep show ?thesis by (simp add: fire_def stepsInv_handleRemoveStep)
next
  case (StepChange i v)
  assume "stepsInv formId s"
  with StepChange show ?thesis by (simp add: fire_def stepsInv_handleStepChange)
next
  case (Settled out)
  assume "stepsInv formId s"
  with Settled show ?thesis
    by (cases out) (auto simp: fire_def elim: stepsInv_cong[rotated 2])
qed (auto simp: fire_def handleSubmit_def elim: stepsInv_cong[rotated 2])

lemma stepCounter_fire: "stepCounter s \<le> stepCounter (fire formId feature s e)"
proof (cases e)
  case (Settled out)
  then show ?thesis by (cases out) (simp_all add: fire_def)
qed (simp_all add: fire_def handleAddStep_def handleRemoveStep_def handleStepChange_def handleSubmit_def)

lemma run_Cons: "run formId feature s (e # es) = run formId feature (fire formId feature s e) es"
  by (simp add: run_def)

lemma stepCounter_run: "stepCounter s \<le> stepCounter (run formId feature s es)"
proof (induction es arbitrary: s)
  case Nil
  show ?case by (simp add: run_def)
next
  case (Cons e es)
  have "stepCounter s \<le> stepCounter (fire formId feature s e)" by (rule stepCounter_fire)
  also have "\<dots> \<le> stepCounter (run formId feature (fire formId feature s e) es)" by (rule Cons.IH)
  finally show ?case by (simp only: run_Cons)
qed

lemma trace_stepsInv:
  "stepsInv formId s \<Longrightarrow> st \<in> set (trace formId feature s es) \<Longrightarrow>
     stepsInv formId st \<and> stepCounter st \<le> stepCounter (run formId feature s es)"
proof (induction es arbitrary: s)
  case Nil
  then show ?case by (simp add: run_def)
next
  case (Cons e es)
  from Cons.prems(2) consider "st = s" | "st \<in> set (trace formId feature (fire formId feature s e) es)"
    by auto
  then show ?case
  proof cases
    case 1
    with Cons.prems(1) stepCounter_run[of s formId feature "e # es"] show ?thesis by simp
  next
    case 2
    from Cons.IH[OF stepsInv_fire[OF Cons.prems(1)] 2] show ?thesis by (simp only: run_Cons)
  qed
qed

lemma trace_invariant:
  assumes step: "\<And>s e. P s \<Longrightarrow> P (fire formId feature s e)"
  shows "P s \<Longrightarrow> st \<in> set (trace formId feature s es) \<Longrightarrow> P st"
proof (induction es arbitrary: s)
  case Nil
  then show ?case by simp
next
  case (Cons e es)
  from Cons.prems(2) consider "st = s" | "st \<in> set (trace formId feature (fire formId feature s e) es)"
    by auto
  then show ?case
  proof cases
    case 1
    with Cons.prems(1) show ?thesis by simp
  next
    case 2
    from Cons.IH[OF step[OF Cons.prems(1)] 2] show ?thesis .
  qed
qed

lemma run_in_trace: "run formId feature s es \<in> set (trace formId feature s es)"
  by (induction es arbitrary: s) (simp_all add: run_def)

lemma enabled_Submit:
  "enabled feature s Submit \<longleftrightarrow> truthy (isValid s) \<and> hasChanges feature s \<and> \<not> isPending s"
  by (auto simp: submitDisabled_def)

lemma inFlight_fire_grows:
  assumes "length (inFlight s) < length (inFlight (fire formId feature s e))"
  shows "e = Submit \<and> enabled feature s Submit"
proof (cases e)
  case (Settled out)
  with assms show ?thesis by (cases out) (auto simp: fire_def split: if_splits)
next
  case Submit
  with assms show ?thesis by (auto simp: fire_def split: if_splits)
qed (use assms in \<open>auto simp: fire_def handleAddStep_def handleRemoveStep_def handleStepChange_def split: if_splits\<close>)

lemma inFlight_fire_bound:
  assumes "length (inFlight s) \<le> 1"
  shows "length (inFlight (fire formId feature s e)) \<le> 1"
proof (rule ccontr)
  assume "\<not> length (inFlight (fire formId feature s e)) \<le> 1"
  with assms have g: "length (inFlight s) < length (inFlight (fire formId feature s e))" by simp
  from inFlight_fire_grows[OF g] have e: "e = Submit" and en: "enabled feature s Submit" by simp_all
  from en have "inFlight s = []" by (simp add: submitDisabled_def isPending_def)
  with e en have "length (inFlight (fire formId feature s e)) = 1"
    by (simp add: fire_def handleSubmit_def)
  with \<open>\<not> length (inFlight (fire formId feature s e)) \<le> 1\<close> show False by simp
qed

lemma fire_Submit_pending: "isPending s \<Longrightarrow> fire formId feature s Submit = s"
  by (simp add: fire_def submitDisabled_def)

text \<open>
  Claim C6. In every state a session passes through, under any sequence of events, the
  ids of the step list are pairwise distinct, and the id that the next \<open>handleAddStep\<close>
  would append occurs in none of the states passed through so far: an id is never used
  twice, not even the id of a removed entry. \<open>handleAddStep\<close> appends exactly that id;
  \<open>handleRemoveStep\<close> and \<open>handleStepChange\<close> introduce no id.
\<close>

theorem localIds_distinct:
  "(\<forall>st \<in> set (trace formId feature (initialState formId feature) es).
      distinct (map step_id (steps st)) \<and>
      stepId formId (stepCounter (session formId feature es)) \<notin> set (map step_id (steps st))) \<and>
   map step_id (steps (handleAddStep formId s)) = map step_id (steps s) @ [stepId formId (stepCounter s)] \<and>
   set (map step_id (steps (handleRemoveStep i s))) \<subseteq> set (map step_id (steps s)) \<and>
   map step_id (steps (handleStepChange i v s)) = map step_id (steps s)"
proof (intro conjI ballI)
  fix st
  assume "st \<in> set (trace formId feature (initialState formId feature) es)"
  from trace_stepsInv[OF stepsInv_initialState this]
  have inv: "stepsInv formId st"
    and le: "stepCounter st \<le> stepCounter (session formId feature es)"
    by (simp_all add: session_def)
  from inv show "distinct (map step_id (steps st))" by (simp add: stepsInv_def)
  from inv have "set (map step_id (steps st)) \<subseteq> stepId formId ` {..<stepCounter st}"
    by (simp add: stepsInv_def)
  from stepId_fresh[OF this le]
  show "stepId formId (stepCounter (session formId feature es)) \<notin> set (map step_id (steps st))" .
next
  show "map step_id (steps (handleAddStep formId s)) = map step_id (steps s) @ [stepId formId (stepCounter s)]"
    by (simp add: handleAddStep_def)
  show "set (map step_id (steps (handleRemoveStep i s))) \<subseteq> set (map step_id (steps s))"
    by (auto simp: handleRemoveStep_def)
  show "map step_id (steps (handleStepChange i v s)) = map step_id (steps s)"
    by (simp add: handleStepChange_def comp_def)
qed

theorem localIds_distinct_witness:
  "map step_id (steps (session '':r0:'' scenarioA [AddStep, RemoveStep '':r0:-step-1'', AddStep])) =
     ['':r0:-step-0'', '':r0:-step-2'', '':r0:-step-3'', '':r0:-step-4''] \<and>
   distinct (map step_id (steps (session '':r0:'' scenarioA [AddStep, RemoveStep '':r0:-step-1'', AddStep]))) \<and>
   stepId '':r0:'' (stepCounter (session '':r0:'' scenarioA [AddStep, RemoveStep '':r0:-step-1'', AddStep]))
     = '':r0:-step-5'' \<and>
   '':r0:-step-5'' \<notin> set (map step_id (steps (initialState '':r0:'' scenarioA)))"
proof -
  have ids: "map step_id (steps (session '':r0:'' scenarioA [AddStep, RemoveStep '':r0:-step-1'', AddStep])) =
     ['':r0:-step-0'', '':r0:-step-2'', '':r0:-step-3'', '':r0:-step-4'']"
    by code_simp
  have next_id: "stepId '':r0:'' (stepCounter (session '':r0:'' scenarioA [AddStep, RemoveStep '':r0:-step-1'', AddStep]))
     = '':r0:-step-5''"
    by code_simp
  have mem: "session '':r0:'' scenarioA [AddStep, RemoveStep '':r0:-step-1'', AddStep]
      \<in> set (trace '':r0:'' scenarioA (initialState '':r0:'' scenarioA)
               [AddStep, RemoveStep '':r0:-step-1'', AddStep])"
    unfolding session_def by (rule run_in_trace)
  have mem0: "initialState '':r0:'' scenarioA
      \<in> set (trace '':r0:'' scenarioA (initialState '':r0:'' scenarioA)
               [AddStep, RemoveStep '':r0:-step-1'', AddStep])"
    by simp
  from localIds_distinct[of "'':r0:''" scenarioA "[AddStep, RemoveStep '':r0:-step-1'', AddStep]"
      "initialState '':r0:'' scenarioA" "''x''" "''y''"]
  have all: "\<forall>st \<in> set (trace '':r0:'' scenarioA (initialState '':r0:'' scenarioA)
               [AddStep, RemoveStep '':r0:-step-1'', AddStep]).
      distinct (map step_id (steps st)) \<and>
      stepId '':r0:'' (stepCounter (session '':r0:'' scenarioA [AddStep, RemoveStep '':r0:-step-1'', AddStep]))
        \<notin> set (map step_id (steps st))"
    by blast
  from all mem have "distinct (map step_id (steps (session '':r0:'' scenarioA [AddStep, RemoveStep '':r0:-step-1'', AddStep])))"
    by blast
  moreover from all mem0 have "'':r0:-step-5'' \<notin> set (map step_id (steps (initialState '':r0:'' scenarioA)))"
    unfolding next_id by blast
  ultimately show ?thesis using ids next_id by blast
qed

text \<open>
  Claim C3. In a state whose step list has one entry, removing a step is a no-op for
  every id: the remove button is rendered only when \<open>steps.length > 1\<close> (line 198;
  \<open>handleRemoveStep\<close> itself has no check of the length and relies on it), so the event
  is not offered and the state stays as it is. Where the button is rendered and the ids
  are pairwise distinct, \<open>handleRemoveStep\<close> leaves at least one entry. Hence in every
  state a session passes through, under any sequence of events, the step list has at
  least one entry.
\<close>

theorem removeStep_keeps_last_row:
  "(length (steps s) = 1 \<longrightarrow> fire formId feature s (RemoveStep i) = s) \<and>
   (1 < length (steps s) \<and> distinct (map step_id (steps s)) \<longrightarrow>
      1 \<le> length (steps (handleRemoveStep i s))) \<and>
   (\<forall>st \<in> set (trace formId feature (initialState formId feature) es). 1 \<le> length (steps st))"
proof (intro conjI ballI impI)
  assume "length (steps s) = 1"
  then show "fire formId feature s (RemoveStep i) = s" by (simp add: fire_def)
next
  assume "1 < length (steps s) \<and> distinct (map step_id (steps s))"
  then have "1 < length (steps s)" and d: "distinct (map step_id (steps s))" by simp_all
  with filter_distinct_key[OF d, of i]
  show "1 \<le> length (steps (handleRemoveStep i s))" by (simp add: handleRemoveStep_def)
next
  fix st
  assume "st \<in> set (trace formId feature (initialState formId feature) es)"
  from trace_stepsInv[OF stepsInv_initialState this] show "1 \<le> length (steps st)"
    by (simp add: stepsInv_def)
qed

theorem removeStep_keeps_last_row_witness:
  "length (steps (initialState '':r0:'' scenarioEmpty)) = 1 \<and>
   fire '':r0:'' scenarioEmpty (initialState '':r0:'' scenarioEmpty) (RemoveStep '':r0:-step-0'') =
     initialState '':r0:'' scenarioEmpty \<and>
   1 < length (steps (initialState '':r0:'' scenarioA)) \<and>
   distinct (map step_id (steps (initialState '':r0:'' scenarioA))) \<and>
   1 \<le> length (steps (handleRemoveStep '':r0:-step-0'' (initialState '':r0:'' scenarioA))) \<and>
   1 \<le> length (steps (session '':r0:'' scenarioA
      [RemoveStep '':r0:-step-0'', RemoveStep '':r0:-step-1'', RemoveStep '':r0:-step-2'']))"
proof -
  have one: "length (steps (initialState '':r0:'' scenarioEmpty)) = 1" by code_simp
  have three: "1 < length (steps (initialState '':r0:'' scenarioA))" by code_simp
  have dist: "distinct (map step_id (steps (initialState '':r0:'' scenarioA)))" by code_simp
  have mem: "session '':r0:'' scenarioA
        [RemoveStep '':r0:-step-0'', RemoveStep '':r0:-step-1'', RemoveStep '':r0:-step-2'']
      \<in> set (trace '':r0:'' scenarioA (initialState '':r0:'' scenarioA)
        [RemoveStep '':r0:-step-0'', RemoveStep '':r0:-step-1'', RemoveStep '':r0:-step-2''])"
    unfolding session_def by (rule run_in_trace)
  show ?thesis
    using removeStep_keeps_last_row[of "initialState '':r0:'' scenarioEmpty" "'':r0:''" scenarioEmpty
        "'':r0:-step-0''" "[]"]
      removeStep_keeps_last_row[of "initialState '':r0:'' scenarioA" "'':r0:''" scenarioA "'':r0:-step-0''"
        "[RemoveStep '':r0:-step-0'', RemoveStep '':r0:-step-1'', RemoveStep '':r0:-step-2'']"]
      one three dist mem
    by blast
qed

section \<open>Submission\<close>

text \<open>
  Claim C2. In every state the submit event is offered exactly when \<open>isValid\<close> is truthy,
  \<open>hasChanges\<close> holds and no mutation is pending (the submit button is disabled
  otherwise, line 224; \<open>handleSubmit\<close> has no check of its own). An event adds a
  mutation call only if it is a submit under that gate; while a mutation is pending a
  submit changes nothing. Hence in every state a session passes through at most one
  mutation call is in flight.
\<close>

theorem submit_gate:
  "(enabled feature s Submit \<longleftrightarrow> truthy (isValid s) \<and> hasChanges feature s \<and> \<not> isPending s) \<and>
   (length (inFlight s) < length (inFlight (fire formId feature s e)) \<longrightarrow>
      e = Submit \<and> truthy (isValid s) \<and> hasChanges feature s \<and> \<not> isPending s) \<and>
   (isPending s \<longrightarrow> fire formId feature s Submit = s) \<and>
   (\<forall>st \<in> set (trace formId feature (initialState formId feature) es). length (inFlight st) \<le> 1)"
proof (intro conjI ballI impI)
  show "enabled feature s Submit \<longleftrightarrow> truthy (isValid s) \<and> hasChanges feature s \<and> \<not> isPending s"
    by (rule enabled_Submit)
next
  assume "length (inFlight s) < length (inFlight (fire formId feature s e))"
  from inFlight_fire_grows[OF this] show "e = Submit" "truthy (isValid s)" "hasChanges feature s" "\<not> isPending s"
    by (simp_all add: submitDisabled_def)
next
  assume "isPending s"
  then show "fire formId feature s Submit = s" by (rule fire_Submit_pending)
next
  fix st
  assume st: "st \<in> set (trace formId feature (initialState formId feature) es)"
  have init: "length (inFlight (initialState formId feature)) \<le> 1" by (simp add: initialState_def)
  show "length (inFlight st) \<le> 1"
    using inFlight_fire_bound init st
    by (rule trace_invariant[where P = "\<lambda>s. length (inFlight s) \<le> 1"])
qed

theorem submit_gate_witness:
  "enabled scenarioA editedA Submit \<and>
   truthy (isValid editedA) \<and> hasChanges scenarioA editedA \<and> \<not> isPending editedA \<and>
   length (inFlight editedA) < length (inFlight (fire '':r0:'' scenarioA editedA Submit)) \<and>
   isPending submittedA \<and>
   fire '':r0:'' scenarioA submittedA Submit = submittedA \<and>
   length (inFlight (session '':r0:'' scenarioA
      [StepChange '':r0:-step-1'' ''type creds'', Submit, Submit])) \<le> 1"
proof -
  have en: "enabled scenarioA editedA Submit" by code_simp
  have grows: "length (inFlight editedA) < length (inFlight (fire '':r0:'' scenarioA editedA Submit))"
    by code_simp
  have pend: "isPending submittedA" by code_simp
  have mem: "session '':r0:'' scenarioA [StepChange '':r0:-step-1'' ''type creds'', Submit, Submit]
      \<in> set (trace '':r0:'' scenarioA (initialState '':r0:'' scenarioA)
               [StepChange '':r0:-step-1'' ''type creds'', Submit, Submit])"
    unfolding session_def by (rule run_in_trace)
  show ?thesis
    using submit_gate[of scenarioA editedA "'':r0:''" Submit
        "[StepChange '':r0:-step-1'' ''type creds'', Submit, Submit]"]
      submit_gate[of scenarioA submittedA "'':r0:''" Submit "[]"]
      en grows pend mem
    by blast
qed

text \<open>
  Claim C7. When the mutation call in flight rejects, the error is set to the message of
  the thrown value if that is an \<open>Error\<close> instance and to \<open>Failed to update feature\<close>
  otherwise, the call is no longer pending, and nothing else in the state changes:
  category, name, description, priority text, step entries and step counter are as
  before, and neither \<open>onSaved\<close> nor \<open>onClose\<close> has been called. A submission that
  starts from a state offering submit and then fails leaves that state with only the
  error set.
\<close>

theorem failed_submission:
  "(isPending s \<longrightarrow>
      fire formId feature s (Settled (Rejected err)) =
        s\<lparr>inFlight := tl (inFlight s), error := Some (errorText err)\<rparr>) \<and>
   (enabled feature s Submit \<longrightarrow>
      fire formId feature (fire formId feature s Submit) (Settled (Rejected err)) =
        s\<lparr>error := Some (errorText err)\<rparr>) \<and>
   (isPending s \<longrightarrow>
      error (fire formId feature s (Settled (Rejected err))) = Some (errorText err) \<and>
      category (fire formId feature s (Settled (Rejected err))) = category s \<and>
      name (fire formId feature s (Settled (Rejected err))) = name s \<and>
      description (fire formId feature s (Settled (Rejected err))) = description s \<and>
      priority (fire formId feature s (Settled (Rejected err))) = priority s \<and>
      steps (fire formId feature s (Settled (Rejected err))) = steps s \<and>
      onSavedCalls (fire formId feature s (Settled (Rejected err))) = onSavedCalls s \<and>
      onCloseCalls (fire formId feature s (Settled (Rejected err))) = onCloseCalls s) \<and>
   errorText (ErrorInstance message) = message \<and>
   errorText OtherValue = ''Failed to update feature''"
proof (intro conjI impI)
  assume "isPending s"
  then show "fire formId feature s (Settled (Rejected err)) =
        s\<lparr>inFlight := tl (inFlight s), error := Some (errorText err)\<rparr>"
    by (simp add: fire_def)
next
  assume "isPending s"
  then have eq: "fire formId feature s (Settled (Rejected err)) =
        s\<lparr>inFlight := tl (inFlight s), error := Some (errorText err)\<rparr>"
    by (simp add: fire_def)
  show "error (fire formId feature s (Settled (Rejected err))) = Some (errorText err)"
    "category (fire formId feature s (Settled (Rejected err))) = category s"
    "name (fire formId feature s (Settled (Rejected err))) = name s"
    "description (fire formId feature s (Settled (Rejected err))) = description s"
    "priority (fire formId feature s (Settled (Rejected err))) = priority s"
    "steps (fire formId feature s (Settled (Rejected err))) = steps s"
    "onSavedCalls (fire formId feature s (Settled (Rejected err))) = onSavedCalls s"
    "onCloseCalls (fire formId feature s (Settled (Rejected err))) = onCloseCalls s"
    unfolding eq by simp_all
next
  assume en: "enabled feature s Submit"
  then have "inFlight s = []" by (simp add: submitDisabled_def isPending_def)
  with en show "fire formId feature (fire formId feature s Submit) (Settled (Rejected err)) =
        s\<lparr>error := Some (errorText err)\<rparr>"
    by (simp add: fire_def handleSubmit_def isPending_def)
qed simp_all

theorem failed_submission_witness:
  "enabled scenarioA editedA Submit \<and> isPending submittedA \<and>
   fire '':r0:'' scenarioA submittedA (Settled (Rejected (ErrorInstance ''network error''))) =
     editedA\<lparr>error := Some ''network error''\<rparr> \<and>
   fire '':r0:'' scenarioA submittedA (Settled (Rejected OtherValue)) =
     editedA\<lparr>error := Some ''Failed to update feature''\<rparr> \<and>
   fire '':r0:'' scenarioA submittedA (Settled (Rejected OtherValue)) =
     submittedA\<lparr>inFlight := tl (inFlight submittedA), error := Some ''Failed to update feature''\<rparr>"
proof -
  have en: "enabled scenarioA editedA Submit" by code_simp
  have pend: "isPending submittedA" by code_simp
  show ?thesis
    using failed_submission[where s = editedA and formId = "'':r0:''" and feature = scenarioA
        and err = "ErrorInstance ''network error''" and message = "''network error''"]
      failed_submission[where s = editedA and formId = "'':r0:''" and feature = scenarioA
        and err = OtherValue and message = "''network error''"]
      failed_submission[where s = submittedA and formId = "'':r0:''" and feature = scenarioA
        and err = OtherValue and message = "''network error''"]
      en pend
    by (simp add: submittedA_def)
qed

end
